theory Spec2Isabelle
  imports Complex_Main "HOL-Library.Sublist"
begin

section \<open>Data model of the lecture search dialog\<close>

text \<open>
  The embedded program is \<^verbatim>\<open>src/basic/SearchDialog.tsx\<close>.  A \<^verbatim>\<open>Lecture\<close> is the JSON
  object served by the two catalog endpoints.  The fields \<^verbatim>\<open>id\<close> and \<^verbatim>\<open>credits\<close> carry a
  prefix here, because \<open>id\<close> is the identity function of HOL and \<^verbatim>\<open>credits\<close> is also a
  field of the search options.
\<close>

record lecture =
  lecture_id :: string
  title :: string
  grade :: int
  lecture_credits :: string
  major :: string
  schedule :: string

text \<open>
  One entry of the result of \<^verbatim>\<open>parseSchedule\<close>: a day label and the slot numbers it
  covers (\<^verbatim>\<open>range\<close> in the source).
\<close>

record slot =
  day :: string
  slot_range :: "int list"

text \<open>The entry stored in the timetable: \<^verbatim>\<open>{ ...schedule, lecture }\<close>.\<close>

record placed_slot = slot +
  owner :: lecture

text \<open>
  \<^verbatim>\<open>SearchOption\<close>.  The optional fields \<^verbatim>\<open>query\<close> and \<^verbatim>\<open>credits\<close> are \<open>None\<close> when
  they are \<^verbatim>\<open>undefined\<close>.  \<^verbatim>\<open>times\<close> is named \<open>times_sel\<close>, since \<open>times\<close> is the
  multiplication of HOL.  \<^verbatim>\<open>credits\<close> has its declared type, a number, and the numbers
  are the integers; the select box hands over the text of the chosen option, on which
  \<^verbatim>\<open>!credits\<close> and \<^verbatim>\<open>String(credits)\<close> give what they give on the number it spells, the
  empty text standing for no filter.
\<close>

record search_option =
  query :: "string option"
  grades :: "int list"
  days :: "string list"
  times_sel :: "int list"
  majors :: "string list"
  credits :: "int option"

definition PAGE_SIZE :: int where
  "PAGE_SIZE = 100"

section \<open>String primitives of the host language\<close>

text \<open>
  \<^verbatim>\<open>String.prototype.toLowerCase\<close>, restricted to the ASCII letters: a string is a list
  of bytes here, and bytes outside \<open>A\<close>..\<open>Z\<close> are left as they are.  It is the function of
  the source on strings whose letters are ASCII letters, and on the empty string; the
  source also lowers letters outside ASCII, which this one does not.  The results below
  apply it to the empty query and to ASCII examples only.
\<close>

definition lower_char :: "char \<Rightarrow> char" where
  "lower_char c =
     (let n = (of_char c :: nat) in if 65 \<le> n \<and> n \<le> 90 then char_of (n + 32) else c)"

definition toLowerCase :: "string \<Rightarrow> string" where
  "toLowerCase s = map lower_char s"

text \<open>\<^verbatim>\<open>s.includes(sub)\<close>: \<open>sub\<close> occurs in \<open>s\<close> as a contiguous block (\<open>includes\<close> is a keyword of Isabelle).\<close>

fun str_includes :: "string \<Rightarrow> string \<Rightarrow> bool" where
  "str_includes [] sub = (sub = [])"
| "str_includes (c # cs) sub = (prefix sub (c # cs) \<or> str_includes cs sub)"

text \<open>\<^verbatim>\<open>s.startsWith(p)\<close>.\<close>

definition startsWith :: "string \<Rightarrow> string \<Rightarrow> bool" where
  "startsWith s p = prefix p s"

text \<open>
  \<^verbatim>\<open>String(n)\<close> for an integral number: its decimal digits, with a sign.  The source
  prints a number in this way below \<open>10\<^sup>2\<^sup>1\<close> in absolute value and with an exponent
  from there on; the credit filters of the select box are 1, 2 and 3.
\<close>

definition digit_char :: "nat \<Rightarrow> char" where
  "digit_char d = char_of (48 + d)"

function decimal :: "nat \<Rightarrow> string" where
  "decimal n = (if n < 10 then [digit_char n] else decimal (n div 10) @ [digit_char (n mod 10)])"
  by pat_completeness auto
termination
  by (relation "measure (\<lambda>n. n)") auto

definition String_of :: "int \<Rightarrow> string" where
  "String_of i = (if i < 0 then CHR ''-'' # decimal (nat (- i)) else decimal (nat i))"

section \<open>The catalog loader\<close>

text \<open>
  A JavaScript \<^verbatim>\<open>Map\<close> keeps its entries in the order in which the keys were first
  inserted; setting a key that is present replaces the value where it stands.  The map
  is the list of its entries.
\<close>

fun Map_set :: "('k \<times> 'v) list \<Rightarrow> 'k \<Rightarrow> 'v \<Rightarrow> ('k \<times> 'v) list" where
  "Map_set [] k v = [(k, v)]"
| "Map_set ((k', v') # m) k v = (if k' = k then (k, v) # m else (k', v') # Map_set m k v)"

text \<open>\<^verbatim>\<open>new Map(entries)\<close> sets the entries one after the other, from the left.\<close>

definition new_Map :: "('k \<times> 'v) list \<Rightarrow> ('k \<times> 'v) list" where
  "new_Map entries = foldl (\<lambda>m (k, v). Map_set m k v) [] entries"

definition Map_values :: "('k \<times> 'v) list \<Rightarrow> 'v list" where
  "Map_values m = map snd m"

text \<open>
  Lines 104 to 105: \<^verbatim>\<open>Array.from(new Map(allLectures.map((lecture) => [lecture.id, lecture])).values())\<close>.
\<close>

definition uniqueLectures :: "lecture list \<Rightarrow> lecture list" where
  "uniqueLectures allLectures =
     Map_values (new_Map (map (\<lambda>l. (lecture_id l, l)) allLectures))"

text \<open>
  The console, as the list of what was written to it.  The clock readings of
  \<^verbatim>\<open>performance.now()\<close> are parameters of the loader.
\<close>

datatype 'e console_entry =
    ApiStart int
  | ApiDone int
  | Elapsed int
  | LoadFailed 'e

text \<open>
  \<^verbatim>\<open>Promise.all\<close> of the two requests: it is fulfilled with both responses when both
  are, and rejected with the reason of the request that was rejected first otherwise.
  A response is \<open>Inr data\<close>, a failed request \<open>Inl reason\<close>; \<open>majors_first\<close> says which
  request settled first when both fail.
\<close>

fun Promise_all :: "bool \<Rightarrow> 'e + 'a \<Rightarrow> 'e + 'b \<Rightarrow> 'e + ('a \<times> 'b)" where
  "Promise_all majors_first (Inr a) (Inr b) = Inr (a, b)"
| "Promise_all majors_first (Inl e) (Inr b) = Inl e"
| "Promise_all majors_first (Inr a) (Inl e) = Inl e"
| "Promise_all majors_first (Inl e1) (Inl e2) = Inl (if majors_first then e1 else e2)"

text \<open>
  \<^verbatim>\<open>fetchAllLectures\<close> (lines 93 to 112).  It returns what it wrote to the console and
  the catalog; the \<^verbatim>\<open>catch\<close> branch makes it return normally in every case.
\<close>

definition fetchAllLectures ::
  "int \<Rightarrow> int \<Rightarrow> bool \<Rightarrow> 'e + lecture list \<Rightarrow> 'e + lecture list
     \<Rightarrow> 'e console_entry list \<times> lecture list" where
  "fetchAllLectures startTime endTime majors_first fetchMajors fetchLiberalArts =
     (case Promise_all majors_first fetchMajors fetchLiberalArts of
        Inr (majorsData, liberalArtsData) \<Rightarrow>
          (let allLectures = majorsData @ liberalArtsData
           in ([ApiStart startTime, ApiDone endTime, Elapsed (endTime - startTime)],
               uniqueLectures allLectures))
      | Inl error \<Rightarrow> ([ApiStart startTime, LoadFailed error], []))"

section \<open>The filter engine\<close>

text \<open>
  \<^verbatim>\<open>filteredLectures\<close> (lines 132 to 158).  \<^verbatim>\<open>parseSchedule\<close> lives in \<^verbatim>\<open>utils.ts\<close>,
  which is not part of the sources at hand: it is a parameter.  The six predicates are
  the six \<^verbatim>\<open>.filter\<close> calls, in the order of the source.  An empty \<^verbatim>\<open>schedule\<close> string
  is falsy, so such a lecture has no slots and the parser is not called on it.
\<close>

definition schedules_of :: "(string \<Rightarrow> slot list) \<Rightarrow> lecture \<Rightarrow> slot list" where
  "schedules_of parseSchedule l = (if schedule l \<noteq> [] then parseSchedule (schedule l) else [])"

definition query_match :: "string \<Rightarrow> lecture \<Rightarrow> bool" where
  "query_match lowercaseQuery l =
     (str_includes (toLowerCase (title l)) lowercaseQuery
      \<or> str_includes (toLowerCase (lecture_id l)) lowercaseQuery)"

definition grade_match :: "int list \<Rightarrow> lecture \<Rightarrow> bool" where
  "grade_match gs l = (length gs = 0 \<or> grade l \<in> set gs)"

definition major_match :: "string list \<Rightarrow> lecture \<Rightarrow> bool" where
  "major_match ms l = (length ms = 0 \<or> major l \<in> set ms)"

text \<open>\<^verbatim>\<open>!credits\<close> holds for \<^verbatim>\<open>undefined\<close> and for the number \<open>0\<close>.\<close>

definition credits_match :: "int option \<Rightarrow> lecture \<Rightarrow> bool" where
  "credits_match cr l =
     (case cr of
        None \<Rightarrow> True
      | Some c \<Rightarrow> c = 0 \<or> startsWith (lecture_credits l) (String_of c))"

definition day_match :: "(string \<Rightarrow> slot list) \<Rightarrow> string list \<Rightarrow> lecture \<Rightarrow> bool" where
  "day_match parseSchedule ds l =
     (if length ds = 0 then True
      else list_ex (\<lambda>s. day s \<in> set ds) (schedules_of parseSchedule l))"

definition time_match :: "(string \<Rightarrow> slot list) \<Rightarrow> int list \<Rightarrow> lecture \<Rightarrow> bool" where
  "time_match parseSchedule ts l =
     (if length ts = 0 then True
      else list_ex (\<lambda>s. list_ex (\<lambda>time. time \<in> set ts) (slot_range s))
             (schedules_of parseSchedule l))"

definition filteredLectures ::
  "(string \<Rightarrow> slot list) \<Rightarrow> search_option \<Rightarrow> lecture list \<Rightarrow> lecture list" where
  "filteredLectures parseSchedule searchOptions lectures =
     (let lowercaseQuery =
            toLowerCase (case query searchOptions of None \<Rightarrow> [] | Some q \<Rightarrow> q)
      in filter (time_match parseSchedule (times_sel searchOptions))
          (filter (day_match parseSchedule (days searchOptions))
            (filter (credits_match (credits searchOptions))
              (filter (major_match (majors searchOptions))
                (filter (grade_match (grades searchOptions))
                  (filter (query_match lowercaseQuery) lectures))))))"

section \<open>The pagination controller\<close>

text \<open>
  \<^verbatim>\<open>Math.ceil(filteredLectures.length / PAGE_SIZE)\<close> (line 161).  The quotient is taken in
  the rationals: for an array length the rounding of the floating-point division never
  reaches the next integer.
\<close>

definition lastPage :: "'a list \<Rightarrow> int" where
  "lastPage filtered = \<lceil>rat_of_int (int (length filtered)) / rat_of_int PAGE_SIZE\<rceil>"

text \<open>
  \<^verbatim>\<open>xs.slice(0, end)\<close>: a negative \<open>end\<close> counts from the end of the array, and an
  \<open>end\<close> beyond the length stops at the length.
\<close>

definition slice0 :: "'a list \<Rightarrow> int \<Rightarrow> 'a list" where
  "slice0 xs e =
     (if e < 0 then take (nat (int (length xs) + e)) xs else take (nat e) xs)"

text \<open>\<^verbatim>\<open>filteredLectures.slice(0, page * PAGE_SIZE)\<close> (line 163).\<close>

definition visibleLectures :: "'a list \<Rightarrow> int \<Rightarrow> 'a list" where
  "visibleLectures filtered page = slice0 filtered (page * PAGE_SIZE)"

section \<open>The state of the dialog and its handlers\<close>

text \<open>
  The \<^verbatim>\<open>useState\<close> and \<^verbatim>\<open>useRef\<close> cells of \<^verbatim>\<open>SearchDialog\<close>.  \<open>scroll\<close> is the scroll
  offset of the element behind \<^verbatim>\<open>loaderWrapperRef\<close>, \<open>None\<close> while the ref is \<^verbatim>\<open>null\<close>.
\<close>

record dialog =
  lectures :: "lecture list"
  page :: int
  searchOptions :: search_option
  lecturesCache :: "lecture list"
  scroll :: "(int \<times> int) option"

definition initial_options :: search_option where
  "initial_options =
     \<lparr>query = Some [], grades = [], days = [], times_sel = [], majors = [], credits = None\<rparr>"

definition initial_dialog :: dialog where
  "initial_dialog =
     \<lparr>lectures = [], page = 1, searchOptions = initial_options, lecturesCache = [],
      scroll = None\<rparr>"

text \<open>
  The arguments of \<^verbatim>\<open>debouncedChangeSearchOption(field, value)\<close>: a key of
  \<^verbatim>\<open>SearchOption\<close> together with a value of the type that key is declared with.
\<close>

datatype option_key = F_query | F_grades | F_days | F_times | F_majors | F_credits

datatype change =
    Query "string option"
  | Grades "int list"
  | Days "string list"
  | Times "int list"
  | Majors "string list"
  | Credits "int option"

fun field_of :: "change \<Rightarrow> option_key" where
  "field_of (Query v) = F_query"
| "field_of (Grades v) = F_grades"
| "field_of (Days v) = F_days"
| "field_of (Times v) = F_times"
| "field_of (Majors v) = F_majors"
| "field_of (Credits v) = F_credits"

text \<open>\<^verbatim>\<open>{ ...prev, [field]: value }\<close>.\<close>

fun set_field :: "search_option \<Rightarrow> change \<Rightarrow> search_option" where
  "set_field prev (Query v) = prev\<lparr>query := v\<rparr>"
| "set_field prev (Grades v) = prev\<lparr>grades := v\<rparr>"
| "set_field prev (Days v) = prev\<lparr>days := v\<rparr>"
| "set_field prev (Times v) = prev\<lparr>times_sel := v\<rparr>"
| "set_field prev (Majors v) = prev\<lparr>majors := v\<rparr>"
| "set_field prev (Credits v) = prev\<lparr>credits := v\<rparr>"

text \<open>
  The function wrapped by \<^verbatim>\<open>debounce\<close> (lines 169 to 173): \<^verbatim>\<open>setPage(1)\<close>, the update
  of the search options, and \<^verbatim>\<open>loaderWrapperRef.current?.scrollTo(0, 0)\<close>.
\<close>

definition changeSearchOption :: "change \<Rightarrow> dialog \<Rightarrow> dialog" where
  "changeSearchOption c s =
     s\<lparr>page := 1,
       searchOptions := set_field (searchOptions s) c,
       scroll := (case scroll s of None \<Rightarrow> None | Some _ \<Rightarrow> Some (0, 0))\<rparr>"

text \<open>\<^verbatim>\<open>Props.searchInfo\<close>; \<open>None\<close> is \<^verbatim>\<open>null\<close>.\<close>

record search_info =
  tableId :: string
  info_day :: "string option"
  info_time :: "int option"

text \<open>
  The effect on \<^verbatim>\<open>searchInfo\<close> (lines 235 to 242).  \<^verbatim>\<open>searchInfo?.day\<close> is truthy for a
  non-empty string, \<^verbatim>\<open>searchInfo?.time\<close> for a number other than \<open>0\<close>.
\<close>

definition searchInfo_effect :: "search_info option \<Rightarrow> dialog \<Rightarrow> dialog" where
  "searchInfo_effect searchInfo s =
     s\<lparr>searchOptions := (searchOptions s)
         \<lparr>days := (case searchInfo of
                     None \<Rightarrow> []
                   | Some i \<Rightarrow> (case info_day i of
                                 None \<Rightarrow> []
                               | Some d \<Rightarrow> if d \<noteq> [] then [d] else [])),
          times_sel := (case searchInfo of
                          None \<Rightarrow> []
                        | Some i \<Rightarrow> (case info_time i of
                                      None \<Rightarrow> []
                                    | Some t \<Rightarrow> if t \<noteq> 0 then [t] else []))\<rparr>,
       page := 1\<rparr>"

datatype js_error = TypeError

text \<open>
  The callback of the \<^verbatim>\<open>IntersectionObserver\<close> (lines 222 to 226).  An entry is its
  \<^verbatim>\<open>isIntersecting\<close> flag; \<^verbatim>\<open>entries[0]\<close> of an empty array is \<^verbatim>\<open>undefined\<close>, and
  reading a property of it throws.  \<open>lp\<close> is the \<^verbatim>\<open>lastPage\<close> the effect closed over.
\<close>

definition observer_callback :: "int \<Rightarrow> bool list \<Rightarrow> dialog \<Rightarrow> js_error + dialog" where
  "observer_callback lp entries s =
     (case entries of
        [] \<Rightarrow> Inl TypeError
      | isIntersecting # _ \<Rightarrow>
          if isIntersecting then Inr (s\<lparr>page := min lp (page s + 1)\<rparr>) else Inr s)"

text \<open>
  \<open>advance\<close> is that callback, closed over the last page of the current filtered view
  and run on an entry that is intersecting.  It is the callback alone: whether an
  observer with this callback is observing at all is decided by the effect of lines 215
  to 232, which \<open>observer_effect\<close> and \<open>signal\<close> below describe.
\<close>

definition advance :: "(string \<Rightarrow> slot list) \<Rightarrow> dialog \<Rightarrow> js_error + dialog" where
  "advance parseSchedule s =
     observer_callback
       (lastPage (filteredLectures parseSchedule (searchOptions s) (lectures s))) [True] s"

text \<open>
  The effect that loads the catalog (lines 201 to 212); it returns the console output
  with the new state.
\<close>

definition load_effect ::
  "int \<Rightarrow> int \<Rightarrow> bool \<Rightarrow> 'e + lecture list \<Rightarrow> 'e + lecture list \<Rightarrow> dialog
     \<Rightarrow> 'e console_entry list \<times> dialog" where
  "load_effect startTime endTime majors_first fetchMajors fetchLiberalArts s =
     (if length (lecturesCache s) > 0 then ([], s\<lparr>lectures := lecturesCache s\<rparr>)
      else (let (console, results) =
                  fetchAllLectures startTime endTime majors_first fetchMajors fetchLiberalArts
            in (console, s\<lparr>lecturesCache := results, lectures := results\<rparr>)))"

subsection \<open>The life of the observer\<close>

text \<open>
  The dialog together with what the effect of lines 215 to 232 depends on and leaves
  behind: whether \<^verbatim>\<open>loaderRef.current\<close> is an element (\<^verbatim>\<open>loaderWrapperRef.current\<close> is
  one when \<open>scroll\<close> is not \<open>None\<close>), the \<^verbatim>\<open>lastPage\<close> the effect last ran with (\<open>None\<close>
  before its first run), and the \<^verbatim>\<open>lastPage\<close> closed over by the callback of the
  observer that is observing (\<open>None\<close> when no observer is).
\<close>

record component =
  dialog_st :: dialog
  loaderRef :: bool
  effect_dep :: "int option"
  observer :: "int option"

definition initial_component :: component where
  "initial_component =
     \<lparr>dialog_st = initial_dialog, loaderRef = False, effect_dep = None, observer = None\<rparr>"

text \<open>
  The effect of lines 215 to 232, as it is run after a render.  Its dependency list is
  \<^verbatim>\<open>[lastPage]\<close>: it does nothing when \<^verbatim>\<open>lastPage\<close> is what it last ran with.  Otherwise
  the cleanup of the run before takes the old observer away, and the body returns at
  the guard of line 219 when a ref is \<^verbatim>\<open>null\<close>, leaving no observer, or creates an
  observer whose callback closes over the new \<^verbatim>\<open>lastPage\<close>.
\<close>

definition observer_effect :: "(string \<Rightarrow> slot list) \<Rightarrow> component \<Rightarrow> component" where
  "observer_effect parseSchedule C =
     (let lp = lastPage (filteredLectures parseSchedule (searchOptions (dialog_st C))
                           (lectures (dialog_st C)))
      in if effect_dep C = Some lp then C
         else C\<lparr>effect_dep := Some lp,
                observer := (if loaderRef C \<and> scroll (dialog_st C) \<noteq> None then Some lp
                             else None)\<rparr>)"

text \<open>The first run of the effect, when the component is mounted.\<close>

definition mount :: "(string \<Rightarrow> slot list) \<Rightarrow> component" where
  "mount parseSchedule = observer_effect parseSchedule initial_component"

text \<open>
  A visibility signal: the callback of the observer that is observing is run on the
  entries; nothing is run when there is no observer.
\<close>

definition signal :: "bool list \<Rightarrow> component \<Rightarrow> js_error + component" where
  "signal entries C =
     (case observer C of
        None \<Rightarrow> Inr C
      | Some lp \<Rightarrow>
          (case observer_callback lp entries (dialog_st C) of
             Inl e \<Rightarrow> Inl e
           | Inr d \<Rightarrow> Inr (C\<lparr>dialog_st := d\<rparr>)))"

text \<open>
  What happens to the mounted component: the content of the modal is rendered and the
  two refs receive their elements, or it is removed and they are \<^verbatim>\<open>null\<close> again; the
  loading effect lands with the outcome of the two requests; the debounce timer fires and the wrapped function commits a change; the
  \<^verbatim>\<open>searchInfo\<close> prop changes; the observer reports entries.
\<close>

datatype ui_event =
    ModalRendered
  | ModalRemoved
  | CatalogLoaded int int bool "string + lecture list" "string + lecture list"
  | Committed change
  | SearchInfoChanged "search_info option"
  | Intersection "bool list"

fun apply_event :: "component \<Rightarrow> ui_event \<Rightarrow> js_error + component" where
  "apply_event C ModalRendered =
     Inr (C\<lparr>loaderRef := True,
            dialog_st := (dialog_st C)
              \<lparr>scroll := (case scroll (dialog_st C) of None \<Rightarrow> Some (0, 0) | Some p \<Rightarrow> Some p)\<rparr>\<rparr>)"
| "apply_event C ModalRemoved =
     Inr (C\<lparr>loaderRef := False, dialog_st := (dialog_st C)\<lparr>scroll := None\<rparr>\<rparr>)"
| "apply_event C (CatalogLoaded startTime endTime majors_first fetchMajors fetchLiberalArts) =
     Inr (C\<lparr>dialog_st :=
            snd (load_effect startTime endTime majors_first fetchMajors fetchLiberalArts
                   (dialog_st C))\<rparr>)"
| "apply_event C (Committed c) = Inr (C\<lparr>dialog_st := changeSearchOption c (dialog_st C)\<rparr>)"
| "apply_event C (SearchInfoChanged info) =
     Inr (C\<lparr>dialog_st := searchInfo_effect info (dialog_st C)\<rparr>)"
| "apply_event C (Intersection entries) = signal entries C"

text \<open>An event is followed by a render, after which the effect is run.\<close>

definition ui_step ::
  "(string \<Rightarrow> slot list) \<Rightarrow> component \<Rightarrow> ui_event \<Rightarrow> js_error + component" where
  "ui_step parseSchedule C ev =
     (case apply_event C ev of
        Inl e \<Rightarrow> Inl e
      | Inr C' \<Rightarrow> Inr (observer_effect parseSchedule C'))"

fun ui_run ::
  "(string \<Rightarrow> slot list) \<Rightarrow> component \<Rightarrow> ui_event list \<Rightarrow> js_error + component" where
  "ui_run parseSchedule C [] = Inr C"
| "ui_run parseSchedule C (ev # evs) =
     (case ui_step parseSchedule C ev of
        Inl e \<Rightarrow> Inl e
      | Inr C' \<Rightarrow> ui_run parseSchedule C' evs)"

section \<open>Timers and \<^verbatim>\<open>debounce\<close>\<close>

text \<open>
  The timers of the event loop: the clock in milliseconds, the next unused handle, and
  the armed timers in the order in which they were set, each with its handle, the time
  at which it is due, and the arguments its callback will pass on.
\<close>

record 'a timers =
  now :: nat
  fresh :: nat
  armed :: "(nat \<times> nat \<times> 'a) list"

text \<open>\<^verbatim>\<open>setTimeout(() => func(...args), wait)\<close> arms a timer and returns its handle.\<close>

definition setTimeout :: "'a \<Rightarrow> nat \<Rightarrow> 'a timers \<Rightarrow> nat \<times> 'a timers" where
  "setTimeout args wait T =
     (fresh T, T\<lparr>fresh := fresh T + 1, armed := armed T @ [(fresh T, now T + wait, args)]\<rparr>)"

text \<open>
  \<^verbatim>\<open>clearTimeout(h)\<close> disarms the timer with handle \<open>h\<close>; it does nothing when \<open>h\<close> is
  \<^verbatim>\<open>undefined\<close> or the timer has fired.
\<close>

definition clearTimeout :: "nat option \<Rightarrow> 'a timers \<Rightarrow> 'a timers" where
  "clearTimeout h T = T\<lparr>armed := filter (\<lambda>(h', due, args). Some h' \<noteq> h) (armed T)\<rparr>"

text \<open>
  The function returned by \<^verbatim>\<open>debounce(func, wait)\<close> (lines 444 to 451).  Its closure owns
  the variable \<^verbatim>\<open>timeout\<close>, the first component of the state here.
\<close>

definition debounced :: "nat \<Rightarrow> 'a \<Rightarrow> nat option \<times> 'a timers \<Rightarrow> nat option \<times> 'a timers" where
  "debounced wait args st =
     (let (timeout, T) = st;
          T1 = clearTimeout timeout T;
          (h, T2) = setTimeout args wait T1
      in (Some h, T2))"

text \<open>
  The dialog together with the event loop.  \<open>committed\<close> records the calls of the
  wrapped function, oldest first; the program does not read it.
\<close>

record system =
  dialog_of :: dialog
  timeout_var :: "nat option"
  loop :: "change timers"
  committed :: "change list"

definition initial_system :: "nat \<Rightarrow> system" where
  "initial_system t0 =
     \<lparr>dialog_of = initial_dialog, timeout_var = None,
      loop = \<lparr>now = t0, fresh = 0, armed = []\<rparr>, committed = []\<rparr>"

text \<open>
  \<^verbatim>\<open>debouncedChangeSearchOption\<close> (lines 168 to 175): one debounced function, created
  once (\<^verbatim>\<open>useCallback\<close> with no dependencies), with a wait of 300 ms.
\<close>

definition debouncedChangeSearchOption :: "change \<Rightarrow> system \<Rightarrow> system" where
  "debouncedChangeSearchOption c S =
     (let (h, T) = debounced 300 c (timeout_var S, loop S)
      in S\<lparr>timeout_var := h, loop := T\<rparr>)"

text \<open>A timer fires: it leaves the table and the wrapped function runs on its arguments.\<close>

definition fire :: "system \<Rightarrow> nat \<times> nat \<times> change \<Rightarrow> system" where
  "fire S t =
     (case t of (h, due, c) \<Rightarrow>
        S\<lparr>loop := clearTimeout (Some h) (loop S),
          dialog_of := changeSearchOption c (dialog_of S),
          committed := committed S @ [c]\<rparr>)"

text \<open>
  Time passes: the clock moves on by \<open>d\<close> milliseconds and the timers that have become
  due fire, the earliest first and in the order of their arming among equals.  A timer
  that is due fires before the next call is handled.
\<close>

definition elapse :: "nat \<Rightarrow> system \<Rightarrow> system" where
  "elapse d S =
     (let S1 = S\<lparr>loop := (loop S)\<lparr>now := now (loop S) + d\<rparr>\<rparr>;
          ready = filter (\<lambda>(h, due, c). due \<le> now (loop S1)) (armed (loop S1))
      in foldl fire S1 (sort_key (\<lambda>(h, due, c). due) ready))"

datatype event = Update change | Elapse nat

fun step :: "system \<Rightarrow> event \<Rightarrow> system" where
  "step S (Update c) = debouncedChangeSearchOption c S"
| "step S (Elapse d) = elapse d S"

definition run :: "system \<Rightarrow> event list \<Rightarrow> system" where
  "run S evs = foldl step S evs"

text \<open>
  A burst of calls: a first call, then further calls, each after the given number of
  milliseconds since the call before it.
\<close>

definition burst :: "change \<Rightarrow> (nat \<times> change) list \<Rightarrow> event list" where
  "burst c rest = Update c # concat (map (\<lambda>(d, c'). [Elapse d, Update c']) rest)"

text \<open>
  What holds of the timers between two events: at most one is armed, and it is the one
  whose handle \<^verbatim>\<open>timeout\<close> holds.
\<close>

definition tidy :: "system \<Rightarrow> bool" where
  "tidy S =
     (case armed (loop S) of
        [] \<Rightarrow> True
      | [(h, due, c)] \<Rightarrow> timeout_var S = Some h \<and> now (loop S) < due
      | _ \<Rightarrow> False)"

section \<open>The schedule exporter\<close>

text \<open>
  \<^verbatim>\<open>addSchedule\<close> (lines 178 to 196).  The store of \<^verbatim>\<open>useScheduleContext\<close> maps a table
  identifier to its list of slots; \<^verbatim>\<open>[...prev[tableId], ...schedules]\<close> spreads
  \<^verbatim>\<open>undefined\<close> when the table has no entry, which throws.  The result is what becomes
  of the store once it has run the updater handed to \<^verbatim>\<open>setSchedulesMap\<close>: the new store,
  with whether \<^verbatim>\<open>onClose\<close> was called, or the error the updater throws.  In the source
  the call itself returns after \<^verbatim>\<open>onClose()\<close> and the updater throws when the store runs
  it; the error value does not record that \<^verbatim>\<open>onClose\<close> was called before.
\<close>

definition addSchedule ::
  "(string \<Rightarrow> slot list) \<Rightarrow> search_info option \<Rightarrow> lecture
     \<Rightarrow> (string \<rightharpoonup> placed_slot list) \<Rightarrow> js_error + ((string \<rightharpoonup> placed_slot list) \<times> bool)" where
  "addSchedule parseSchedule searchInfo l prev =
     (case searchInfo of
        None \<Rightarrow> Inr (prev, False)
      | Some info \<Rightarrow>
          (let schedules = map (\<lambda>s. slot.extend s \<lparr>owner = l\<rparr>)
                             (parseSchedule (schedule l))
           in case prev (tableId info) of
                None \<Rightarrow> Inl TypeError
              | Some existing \<Rightarrow> Inr (prev(tableId info \<mapsto> existing @ schedules), True)))"

section \<open>Auxiliary notions for the proofs\<close>

text \<open>The value a key has in the search options, read back as a change.\<close>

fun get_field :: "option_key \<Rightarrow> search_option \<Rightarrow> change" where
  "get_field F_query so = Query (query so)"
| "get_field F_grades so = Grades (grades so)"
| "get_field F_days so = Days (days so)"
| "get_field F_times so = Times (times_sel so)"
| "get_field F_majors so = Majors (majors so)"
| "get_field F_credits so = Credits (credits so)"

text \<open>
  The state right after a call of the debounced function with arguments \<open>c\<close>: exactly
  one timer is armed, it is the one \<^verbatim>\<open>timeout\<close> holds, it carries \<open>c\<close>, and it is due
  300 ms from now.
\<close>

definition poised :: "system \<Rightarrow> change \<Rightarrow> bool" where
  "poised S c =
     (case timeout_var S of
        None \<Rightarrow> False
      | Some h \<Rightarrow> armed (loop S) = [(h, now (loop S) + 300, c)])"

subsection \<open>A small catalog for the examples\<close>

text \<open>
  Day labels are written in ASCII here.  \<open>example_parser\<close> stands for
  \<^verbatim>\<open>parseSchedule\<close> on the one encoding the examples use.
\<close>

definition cs101 :: lecture where
  "cs101 = \<lparr>lecture_id = ''CS101'', title = ''Intro to Systems'', grade = 1,
            lecture_credits = ''3'', major = ''CS'', schedule = ''Mon01-02''\<rparr>"

definition cs101_liberal :: lecture where
  "cs101_liberal = \<lparr>lecture_id = ''CS101'', title = ''Systems for Everyone'', grade = 2,
            lecture_credits = ''2'', major = ''GE'', schedule = []\<rparr>"

definition ge200 :: lecture where
  "ge200 = \<lparr>lecture_id = ''GE200'', title = ''Writing'', grade = 1,
            lecture_credits = ''2'', major = ''GE'', schedule = []\<rparr>"

definition example_parser :: "string \<Rightarrow> slot list" where
  "example_parser enc =
     (if enc = ''Mon01-02'' then [\<lparr>day = ''Mon'', slot_range = [1, 2]\<rparr>] else [])"

definition table1 :: search_info where
  "table1 = \<lparr>tableId = ''t1'', info_day = None, info_time = None\<rparr>"

text \<open>A store that has an empty list for the table \<open>t1\<close>, and one that has none.\<close>

definition store_with_t1 :: "string \<rightharpoonup> placed_slot list" where
  "store_with_t1 = [''t1'' \<mapsto> []]"

definition store_without_t1 :: "string \<rightharpoonup> placed_slot list" where
  "store_without_t1 = [''t2'' \<mapsto> []]"

section \<open>Properties of the catalog loader\<close>

lemma Map_set_keys:
  "map fst (Map_set m k v) = (if k \<in> fst ` set m then map fst m else map fst m @ [k])"
  by (induction m k v rule: Map_set.induct) auto

lemma Map_set_key_set: "fst ` set (Map_set m k v) = insert k (fst ` set m)"
  by (induction m k v rule: Map_set.induct) auto

lemma Map_set_lookup: "map_of (Map_set m k v) = (map_of m)(k \<mapsto> v)"
  by (induction m k v rule: Map_set.induct) (auto simp: fun_eq_iff)

lemma Map_set_entries: "set (Map_set m k v) \<subseteq> insert (k, v) (set m)"
  by (induction m k v rule: Map_set.induct) auto

text \<open>The loop of \<^verbatim>\<open>new Map\<close>, started from any map.\<close>

lemma foldl_set_distinct:
  "distinct (map fst m) \<Longrightarrow> distinct (map fst (foldl (\<lambda>m (k, v). Map_set m k v) m es))"
  by (induction es arbitrary: m) (auto simp: Map_set_keys)

lemma foldl_set_keys:
  "fst ` set (foldl (\<lambda>m (k, v). Map_set m k v) m es) = fst ` set m \<union> fst ` set es"
proof (induction es arbitrary: m)
  case Nil
  show ?case by simp
next
  case (Cons e es)
  obtain k v where e: "e = (k, v)" by (cases e)
  from Cons.IH[of "Map_set m k v"] e show ?case
    by (auto simp: Map_set_key_set)
qed

lemma foldl_set_entries:
  "set (foldl (\<lambda>m (k, v). Map_set m k v) m es) \<subseteq> set m \<union> set es"
proof (induction es arbitrary: m)
  case Nil
  show ?case by simp
next
  case (Cons e es)
  obtain k v where e: "e = (k, v)" by (cases e)
  from Cons.IH[of "Map_set m k v"] Map_set_entries[of m k v] e show ?case
    by auto
qed

lemma foldl_set_lookup:
  "map_of (foldl (\<lambda>m (k, v). Map_set m k v) m es) = map_of m ++ map_of (rev es)"
proof (induction es arbitrary: m)
  case Nil
  show ?case by simp
next
  case (Cons e es)
  obtain k v where e: "e = (k, v)" by (cases e)
  from Cons.IH[of "Map_set m k v"] e show ?case
    by (simp add: Map_set_lookup fun_eq_iff map_add_def split: option.splits)
qed

text \<open>Looking a key up in the reversed entries finds the last record with that key.\<close>

lemma lookup_rev_last:
  "map_of (rev (map (\<lambda>l. (f l, l)) B)) k =
     (if \<exists>x\<in>set B. f x = k then Some (last (filter (\<lambda>x. f x = k) B)) else None)"
  by (induction B rule: rev_induct) auto

lemma last_filter_mem:
  assumes "\<exists>x\<in>set B. P x"
  shows "last (filter P B) \<in> set B"
proof -
  from assms have "filter P B \<noteq> []" by (simp add: filter_empty_conv)
  then have "last (filter P B) \<in> set (filter P B)" by (rule last_in_set)
  then show ?thesis by simp
qed

lemma uniqueLectures_entries:
  "set (new_Map (map (\<lambda>l. (lecture_id l, l)) xs)) \<subseteq> (\<lambda>l. (lecture_id l, l)) ` set xs"
  using foldl_set_entries[of "[]" "map (\<lambda>l. (lecture_id l, l)) xs"]
  by (simp add: new_Map_def)

lemma uniqueLectures_ids:
  "map lecture_id (uniqueLectures xs) = map fst (new_Map (map (\<lambda>l. (lecture_id l, l)) xs))"
  using uniqueLectures_entries[of xs]
  by (auto simp: uniqueLectures_def Map_values_def)

lemma uniqueLectures_distinct: "distinct (map lecture_id (uniqueLectures xs))"
  using foldl_set_distinct[of "[]" "map (\<lambda>l. (lecture_id l, l)) xs"]
  by (simp add: uniqueLectures_ids new_Map_def)

lemma uniqueLectures_id_set: "set (map lecture_id (uniqueLectures xs)) = lecture_id ` set xs"
  using foldl_set_keys[of "[]" "map (\<lambda>l. (lecture_id l, l)) xs"]
  by (simp add: uniqueLectures_ids new_Map_def image_image)

lemma uniqueLectures_length: "length (uniqueLectures xs) = card (lecture_id ` set xs)"
proof -
  have "card (set (map lecture_id (uniqueLectures xs))) = length (map lecture_id (uniqueLectures xs))"
    by (rule distinct_card) (rule uniqueLectures_distinct)
  then show ?thesis
    by (simp only: uniqueLectures_id_set length_map)
qed

lemma uniqueLectures_lookup:
  assumes "r \<in> set (uniqueLectures xs)"
  shows "map_of (rev (map (\<lambda>l. (lecture_id l, l)) xs)) (lecture_id r) = Some r"
proof -
  let ?m = "new_Map (map (\<lambda>l. (lecture_id l, l)) xs)"
  from assms obtain k where kr: "(k, r) \<in> set ?m"
    by (auto simp: uniqueLectures_def Map_values_def)
  with uniqueLectures_entries[of xs] have "k = lecture_id r" by auto
  moreover have "distinct (map fst ?m)"
    using foldl_set_distinct[of "[]" "map (\<lambda>l. (lecture_id l, l)) xs"] by (simp add: new_Map_def)
  ultimately have "map_of ?m (lecture_id r) = Some r"
    using kr by simp
  then show ?thesis
    using foldl_set_lookup[of "[]" "map (\<lambda>l. (lecture_id l, l)) xs"] by (simp add: new_Map_def)
qed

lemma uniqueLectures_later_wins:
  assumes "r \<in> set (uniqueLectures (A @ B))" and "lecture_id r \<in> lecture_id ` set B"
  shows "r = last (filter (\<lambda>x. lecture_id x = lecture_id r) B)"
proof -
  have "map_of (rev (map (\<lambda>l. (lecture_id l, l)) B)) (lecture_id r)
          = Some (last (filter (\<lambda>x. lecture_id x = lecture_id r) B))"
    using assms(2) by (subst lookup_rev_last) auto
  then have "map_of (rev (map (\<lambda>l. (lecture_id l, l)) (A @ B))) (lecture_id r)
          = Some (last (filter (\<lambda>x. lecture_id x = lecture_id r) B))"
    by simp
  with uniqueLectures_lookup[OF assms(1)] show ?thesis by simp
qed

text \<open>
  \<^bold>\<open>C1.\<close>  When both requests succeed with partitions \<open>A\<close> and \<open>B\<close>, the catalog the
  loader returns has pairwise distinct identifiers, its identifiers are those of
  \<open>A @ B\<close>, its size is the number of distinct identifiers of \<open>A @ B\<close>, and every
  record in it whose identifier occurs in \<open>B\<close> is a record of \<open>B\<close>: the last one of
  \<open>B\<close> with that identifier.
\<close>

theorem merged_catalog_one_record_per_id_later_partition_wins:
  "let M = snd (fetchAllLectures startTime endTime majors_first (Inr A) (Inr B)) in
     distinct (map lecture_id M)
     \<and> set (map lecture_id M) = set (map lecture_id (A @ B))
     \<and> length M = card (set (map lecture_id (A @ B)))
     \<and> (\<forall>r\<in>set M. lecture_id r \<in> lecture_id ` set B \<longrightarrow>
           r \<in> set B \<and> r = last (filter (\<lambda>x. lecture_id x = lecture_id r) B))"
proof -
  have M: "snd (fetchAllLectures startTime endTime majors_first (Inr A) (Inr B)
                  :: 'a console_entry list \<times> lecture list)
             = uniqueLectures (A @ B)"
    by (simp add: fetchAllLectures_def)
  have later: "r \<in> set B \<and> r = last (filter (\<lambda>x. lecture_id x = lecture_id r) B)"
    if "r \<in> set (uniqueLectures (A @ B))" "lecture_id r \<in> lecture_id ` set B" for r
  proof -
    have eq: "r = last (filter (\<lambda>x. lecture_id x = lecture_id r) B)"
      using uniqueLectures_later_wins[OF that] .
    have "last (filter (\<lambda>x. lecture_id x = lecture_id r) B) \<in> set B"
      using that(2) by (intro last_filter_mem) auto
    with eq show ?thesis by simp
  qed
  show ?thesis
    unfolding M Let_def
    using uniqueLectures_distinct[of "A @ B"] uniqueLectures_id_set[of "A @ B"]
      uniqueLectures_length[of "A @ B"] later
    by (simp only: set_map) blast
qed

theorem merged_catalog_one_record_per_id_later_partition_wins_witness:
  "snd (fetchAllLectures 0 5 True (Inr [cs101, ge200]) (Inr [cs101_liberal])
          :: unit console_entry list \<times> lecture list) = [cs101_liberal, ge200]
   \<and> lecture_id cs101_liberal \<in> lecture_id ` set [cs101, ge200]
   \<and> lecture_id cs101_liberal \<in> lecture_id ` set [cs101_liberal]
   \<and> length (snd (fetchAllLectures 0 5 True (Inr [cs101, ge200]) (Inr [cs101_liberal])
          :: unit console_entry list \<times> lecture list))
       = card (set (map lecture_id ([cs101, ge200] @ [cs101_liberal])))
   \<and> cs101_liberal
       = last (filter (\<lambda>x. lecture_id x = lecture_id cs101_liberal) [cs101_liberal])"
proof -
  let ?M = "snd (fetchAllLectures 0 5 True (Inr [cs101, ge200]) (Inr [cs101_liberal])
          :: unit console_entry list \<times> lecture list)"
  have ev: "?M = [cs101_liberal, ge200]"
    by (simp add: fetchAllLectures_def uniqueLectures_def new_Map_def Map_values_def
        cs101_def ge200_def cs101_liberal_def)
  have ids: "lecture_id cs101_liberal \<in> lecture_id ` set [cs101, ge200]"
    "lecture_id cs101_liberal \<in> lecture_id ` set [cs101_liberal]"
    by (simp_all add: cs101_def ge200_def cs101_liberal_def)
  have mem: "cs101_liberal \<in> set ?M"
    unfolding ev by simp
  from merged_catalog_one_record_per_id_later_partition_wins
         [of 0 5 True "[cs101, ge200]" "[cs101_liberal]", where 'a = unit]
  have len: "length ?M = card (set (map lecture_id ([cs101, ge200] @ [cs101_liberal])))"
    and all: "\<forall>r\<in>set ?M. lecture_id r \<in> lecture_id ` set [cs101_liberal] \<longrightarrow>
           r \<in> set [cs101_liberal]
           \<and> r = last (filter (\<lambda>x. lecture_id x = lecture_id r) [cs101_liberal])"
    unfolding Let_def by blast+
  from all mem ids(2)
  have lst: "cs101_liberal
       = last (filter (\<lambda>x. lecture_id x = lecture_id cs101_liberal) [cs101_liberal])"
    by blast
  from ev ids len lst show ?thesis by (intro conjI)
qed

section \<open>Properties of the filter engine\<close>

lemma str_includes_empty: "str_includes s []"
  by (cases s) simp_all

lemma toLowerCase_empty: "toLowerCase [] = []"
  by (simp add: toLowerCase_def)

lemma query_match_empty: "query_match [] l"
  by (simp add: query_match_def str_includes_empty)

lemma filteredLectures_member:
  "l \<in> set (filteredLectures parseSchedule so catalog) \<Longrightarrow>
     l \<in> set catalog \<and> day_match parseSchedule (days so) l"
  by (simp add: filteredLectures_def Let_def)

text \<open>
  \<^bold>\<open>C2.\<close>  With an empty or absent query, empty grade, day, time and major lists and
  no credit filter, the filtered view is the catalog itself, element for element and in
  order.
\<close>

theorem filter_all_dimensions_empty_is_identity:
  assumes "query so = None \<or> query so = Some []"
    and "grades so = []" and "days so = []" and "times_sel so = []" and "majors so = []"
    and "credits so = None"
  shows "filteredLectures parseSchedule so catalog = catalog"
proof -
  have q: "toLowerCase (case query so of None \<Rightarrow> [] | Some q \<Rightarrow> q) = []"
    using assms(1) by (auto simp: toLowerCase_empty)
  show ?thesis
    unfolding filteredLectures_def Let_def q
    by (simp add: assms query_match_empty grade_match_def major_match_def credits_match_def
        day_match_def time_match_def)
qed

theorem filter_all_dimensions_empty_is_identity_witness:
  "(query initial_options = None \<or> query initial_options = Some [])
   \<and> grades initial_options = [] \<and> days initial_options = []
   \<and> times_sel initial_options = [] \<and> majors initial_options = []
   \<and> credits initial_options = None
   \<and> filteredLectures example_parser initial_options [cs101, ge200] = [cs101, ge200]"
proof -
  have h: "query initial_options = None \<or> query initial_options = Some []"
    "grades initial_options = []" "days initial_options = []"
    "times_sel initial_options = []" "majors initial_options = []"
    "credits initial_options = None"
    by (simp_all add: initial_options_def)
  from filter_all_dimensions_empty_is_identity[OF h, of example_parser "[cs101, ge200]"] h
  show ?thesis by blast
qed

text \<open>
  \<^bold>\<open>C3.\<close>  When the day list of the criteria is not empty, every lecture of the filtered
  view has a non-empty schedule encoding, and the parser, run on that encoding, returns
  a slot whose day is in the day list.  So a lecture with an empty encoding is never in
  the view.
\<close>

theorem day_filter_keeps_only_lectures_with_a_slot_on_a_selected_day:
  assumes "days so \<noteq> []" and "l \<in> set (filteredLectures parseSchedule so catalog)"
  shows "schedule l \<noteq> []
         \<and> (\<exists>s\<in>set (schedules_of parseSchedule l). day s \<in> set (days so))
         \<and> (\<exists>s\<in>set (parseSchedule (schedule l)). day s \<in> set (days so))"
proof -
  from filteredLectures_member[OF assms(2)] have "day_match parseSchedule (days so) l" by simp
  with assms(1) have ex: "\<exists>s\<in>set (schedules_of parseSchedule l). day s \<in> set (days so)"
    by (auto simp: day_match_def list_ex_iff)
  then have ne: "schedule l \<noteq> []"
    by (auto simp: schedules_of_def split: if_splits)
  with ex show ?thesis by (simp add: schedules_of_def)
qed

theorem day_filter_keeps_only_lectures_with_a_slot_on_a_selected_day_witness:
  "days (initial_options\<lparr>days := [''Mon'']\<rparr>) \<noteq> []
   \<and> filteredLectures example_parser (initial_options\<lparr>days := [''Mon'']\<rparr>) [cs101, ge200]
       = [cs101]
   \<and> cs101 \<in> set (filteredLectures example_parser (initial_options\<lparr>days := [''Mon'']\<rparr>)
                    [cs101, ge200])
   \<and> schedule cs101 \<noteq> []
   \<and> (\<exists>s\<in>set (example_parser (schedule cs101)).
         day s \<in> set (days (initial_options\<lparr>days := [''Mon'']\<rparr>)))"
proof -
  have d: "days (initial_options\<lparr>days := [''Mon'']\<rparr>) \<noteq> []" by simp
  have ev: "filteredLectures example_parser (initial_options\<lparr>days := [''Mon'']\<rparr>)
              [cs101, ge200] = [cs101]"
    by (simp add: filteredLectures_def initial_options_def toLowerCase_def
        query_match_def str_includes_empty grade_match_def major_match_def credits_match_def
        day_match_def time_match_def schedules_of_def example_parser_def cs101_def ge200_def)
  then have m: "cs101 \<in> set (filteredLectures example_parser
                   (initial_options\<lparr>days := [''Mon'']\<rparr>) [cs101, ge200])"
    by simp
  from day_filter_keeps_only_lectures_with_a_slot_on_a_selected_day[OF d m] d ev m
  show ?thesis by blast
qed

section \<open>Properties of the pagination controller\<close>

lemma div100_bounds:
  fixes n :: int
  shows "100 * ((n + 99) div 100) - 100 < n \<and> n \<le> 100 * ((n + 99) div 100)"
proof -
  define a where "a = (n + 99) div 100"
  define r where "r = (n + 99) mod 100"
  have "n + 99 = 100 * a + r"
    by (simp add: a_def r_def)
  moreover have "0 \<le> r" and "r < 100"
    by (simp_all add: r_def)
  ultimately have "100 * a - 100 < n" and "n \<le> 100 * a"
    by linarith+
  then show ?thesis by (simp only: a_def)
qed

lemma ceiling_div100: "\<lceil>rat_of_int n / rat_of_int 100\<rceil> = (n + 99) div 100"
proof -
  define a where "a = (n + 99) div 100"
  have lo: "100 * a - 100 < n" and hi: "n \<le> 100 * a"
    using div100_bounds[of n] by (simp_all only: a_def)
  from lo have "rat_of_int (100 * a - 100) < rat_of_int n"
    by (simp only: of_int_less_iff)
  then have lo': "rat_of_int a - 1 < rat_of_int n / rat_of_int 100"
    by (simp add: field_simps)
  from hi have "rat_of_int n \<le> rat_of_int (100 * a)"
    by (simp only: of_int_le_iff)
  then have hi': "rat_of_int n / rat_of_int 100 \<le> rat_of_int a"
    by (simp add: field_simps)
  from lo' hi' have "\<lceil>rat_of_int n / rat_of_int 100\<rceil> = a"
    by (rule ceiling_unique)
  then show ?thesis by (simp only: a_def)
qed

lemma lastPage_div: "lastPage v = (int (length v) + 99) div 100"
  by (simp only: lastPage_def PAGE_SIZE_def ceiling_div100)

lemma visibleLectures_take: "0 \<le> p \<Longrightarrow> visibleLectures v p = take (nat (p * 100)) v"
  by (simp add: visibleLectures_def slice0_def PAGE_SIZE_def)

text \<open>
  \<^bold>\<open>C5\<close>, as stated, asks for a window of exactly 50 elements at page 3 of a view of
  250 elements.  The window at page 3 is the first 300 elements of the view, capped at
  its length: it has 250 elements.
\<close>

theorem window_at_page_3_of_250_counterexample:
  "length (visibleLectures (replicate 250 (0::nat)) 3) \<noteq> 50"
  by (simp add: visibleLectures_def slice0_def PAGE_SIZE_def)

text \<open>
  \<^bold>\<open>C5\<close>, amended.  For a view \<open>v\<close> and a page \<open>p \<ge> 0\<close>, the last page is the ceiling of
  \<open>length v / 100\<close> (the least \<open>L\<close> with \<open>length v \<le> 100 * L\<close>), and the window is the
  first \<open>100 * p\<close> elements of \<open>v\<close>, all of \<open>v\<close> when it is shorter.  For a view of 250
  elements the last page is 3, the window at page 1 has 100 elements and the window at
  page 3 has all 250.
\<close>

theorem pagination_last_page_and_growing_window:
  assumes "0 \<le> p"
  shows "lastPage v = (int (length v) + 99) div 100
         \<and> int (length v) \<le> lastPage v * 100 \<and> (lastPage v - 1) * 100 < int (length v)
         \<and> visibleLectures v p = take (nat (p * 100)) v
         \<and> int (length (visibleLectures v p)) = min (p * 100) (int (length v))
         \<and> (length v = 250 \<longrightarrow>
              lastPage v = 3 \<and> length (visibleLectures v 1) = 100
              \<and> length (visibleLectures v 3) = 250)"
proof -
  have a: "lastPage v = (int (length v) + 99) div 100" by (rule lastPage_div)
  have b: "int (length v) \<le> lastPage v * 100 \<and> (lastPage v - 1) * 100 < int (length v)"
    unfolding a using div100_bounds[of "int (length v)"] by (simp add: algebra_simps)
  have c: "visibleLectures v p = take (nat (p * 100)) v"
    using assms by (rule visibleLectures_take)
  have d: "int (length (visibleLectures v p)) = min (p * 100) (int (length v))"
    using assms by (simp add: c)
  have e: "length v = 250 \<longrightarrow>
              lastPage v = 3 \<and> length (visibleLectures v 1) = 100
              \<and> length (visibleLectures v 3) = 250"
    by (simp add: visibleLectures_take lastPage_div)
  from a b c d e show ?thesis by blast
qed

theorem pagination_last_page_and_growing_window_witness:
  "(0::int) \<le> 3 \<and> length (replicate 250 (0::nat)) = 250
   \<and> lastPage (replicate 250 (0::nat)) = 3
   \<and> length (visibleLectures (replicate 250 (0::nat)) 1) = 100
   \<and> length (visibleLectures (replicate 250 (0::nat)) 3) = 250"
proof -
  have p: "(0::int) \<le> 3" by simp
  have n: "length (replicate 250 (0::nat)) = 250" by simp
  from pagination_last_page_and_growing_window[OF p, of "replicate 250 (0::nat)"] p n
  show ?thesis by blast
qed

text \<open>
  \<^bold>\<open>C6.\<close>  A visibility signal that reports the sentinel as intersecting sets the page
  to \<open>min L (p + 1)\<close>, for the last page \<open>L\<close> the callback closed over and the current
  page \<open>p\<close>; when \<open>p = L\<close> the state is left as it is.  The same holds of \<open>advance\<close>,
  where \<open>L\<close> is the last page of the current filtered view.
\<close>

theorem advance_moves_to_min_lastPage_next:
  "observer_callback lp (True # rest) s = Inr (s\<lparr>page := min lp (page s + 1)\<rparr>)
   \<and> (page s = lp \<longrightarrow> observer_callback lp (True # rest) s = Inr s)
   \<and> advance parseSchedule s =
       Inr (s\<lparr>page := min (lastPage (filteredLectures parseSchedule (searchOptions s) (lectures s)))
                          (page s + 1)\<rparr>)
   \<and> (page s = lastPage (filteredLectures parseSchedule (searchOptions s) (lectures s)) \<longrightarrow>
        advance parseSchedule s = Inr s)"
  by (simp add: observer_callback_def advance_def)

theorem advance_moves_to_min_lastPage_next_witness:
  "page (initial_dialog\<lparr>lectures := [cs101, ge200]\<rparr>) = 1
   \<and> lastPage (filteredLectures example_parser
        (searchOptions (initial_dialog\<lparr>lectures := [cs101, ge200]\<rparr>))
        (lectures (initial_dialog\<lparr>lectures := [cs101, ge200]\<rparr>))) = 1
   \<and> observer_callback 1 [True] (initial_dialog\<lparr>lectures := [cs101, ge200]\<rparr>)
       = Inr (initial_dialog\<lparr>lectures := [cs101, ge200]\<rparr>)
   \<and> advance example_parser (initial_dialog\<lparr>lectures := [cs101, ge200]\<rparr>)
       = Inr (initial_dialog\<lparr>lectures := [cs101, ge200]\<rparr>)"
proof -
  let ?s = "initial_dialog\<lparr>lectures := [cs101, ge200]\<rparr>"
  have p: "page ?s = 1" by (simp add: initial_dialog_def)
  have f: "filteredLectures example_parser (searchOptions ?s) (lectures ?s) = [cs101, ge200]"
    by (simp add: filteredLectures_def initial_dialog_def initial_options_def toLowerCase_def
        query_match_def str_includes_empty grade_match_def major_match_def credits_match_def
        day_match_def time_match_def)
  have l: "lastPage (filteredLectures example_parser (searchOptions ?s) (lectures ?s)) = 1"
    unfolding f by (simp add: lastPage_div)
  from advance_moves_to_min_lastPage_next[of 1 "[]" ?s example_parser] p l
  show ?thesis by simp
qed

subsection \<open>The page on an empty filtered view\<close>

text \<open>
  Right after mounting no observer is observing: the refs were \<^verbatim>\<open>null\<close> when the effect
  ran, and it does not run again before \<^verbatim>\<open>lastPage\<close> changes.  A signal has nothing to
  run then.
\<close>

lemma mount_has_no_observer:
  "mount parseSchedule = initial_component\<lparr>effect_dep := Some 0\<rparr>"
  by (simp add: mount_def observer_effect_def initial_component_def initial_dialog_def
      filteredLectures_def lastPage_div)

lemma signal_without_observer: "observer C = None \<Longrightarrow> signal entries C = Inr C"
  by (simp add: signal_def)

lemma signal_before_refs: "signal entries (mount parseSchedule) = Inr (mount parseSchedule)"
  by (simp add: mount_has_no_observer signal_def initial_component_def)

lemma signal_with_observer:
  "observer C = Some lp \<Longrightarrow>
     signal (True # rest) C =
       Inr (C\<lparr>dialog_st := (dialog_st C)\<lparr>page := min lp (page (dialog_st C) + 1)\<rparr>\<rparr>)"
  by (simp add: signal_def observer_callback_def)

text \<open>After the effect, an observer that is observing closes over the current last page.\<close>

lemma observer_effect_current:
  assumes "observer C = None \<or> observer C = effect_dep C"
    and "observer (observer_effect parseSchedule C) = Some lp"
  shows "lp = lastPage (filteredLectures parseSchedule (searchOptions (dialog_st C))
                          (lectures (dialog_st C)))"
  using assms by (auto simp: observer_effect_def Let_def split: if_splits)

text \<open>
  \<^bold>\<open>C7\<close> does not hold of the code.  Mount the dialog, let \<^verbatim>\<open>searchInfo\<close> name a table
  and the modal be rendered, let the catalog arrive with two lectures, and commit a
  query that no lecture matches.  The page is 1, the filtered view is empty, and the
  effect has run again for the last page 0, with the refs in place: an observer is
  observing whose callback closes over 0.  When it reports the sentinel as intersecting,
  the page becomes \<open>min 0 2 = 0\<close>.
\<close>

theorem signal_on_empty_view_sets_page_zero:
  "(case ui_run example_parser (mount example_parser)
          [SearchInfoChanged (Some table1), ModalRendered,
           CatalogLoaded 0 5 True (Inr [cs101]) (Inr [ge200]),
           Committed (Query (Some ''zzz''))] of
      Inl e \<Rightarrow> False
    | Inr C \<Rightarrow>
        page (dialog_st C) = 1 \<and> lectures (dialog_st C) = [cs101, ge200]
        \<and> filteredLectures example_parser (searchOptions (dialog_st C))
             (lectures (dialog_st C)) = []
        \<and> observer C = Some 0)
   \<and> (case ui_run example_parser (mount example_parser)
          [SearchInfoChanged (Some table1), ModalRendered,
           CatalogLoaded 0 5 True (Inr [cs101]) (Inr [ge200]),
           Committed (Query (Some ''zzz'')),
           Intersection [True]] of
      Inl e \<Rightarrow> False
    | Inr C \<Rightarrow>
        page (dialog_st C) = 0 \<and> page (dialog_st C) < 1
        \<and> lectures (dialog_st C) = [cs101, ge200])"
  by code_simp

text \<open>
  The other handlers set the page to 1, and a visibility signal keeps a page of at least
  1 as long as the last page is at least 1.
\<close>

lemma page_after_commit: "page (changeSearchOption c s) = 1"
  by (simp add: changeSearchOption_def)

lemma page_after_searchInfo: "page (searchInfo_effect info s) = 1"
  by (simp add: searchInfo_effect_def)

lemma page_after_signal:
  "1 \<le> lp \<Longrightarrow> 1 \<le> page s \<Longrightarrow> observer_callback lp entries s = Inr s' \<Longrightarrow> 1 \<le> page s'"
  by (auto simp: observer_callback_def split: list.splits if_splits)

lemma page_after_observed_signal:
  assumes "observer C = Some lp" and "1 \<le> lp" and "1 \<le> page (dialog_st C)"
    and "signal entries C = Inr C'"
  shows "1 \<le> page (dialog_st C')"
proof -
  from assms(1,4) obtain d where d: "observer_callback lp entries (dialog_st C) = Inr d"
    and C': "C' = C\<lparr>dialog_st := d\<rparr>"
    by (auto simp: signal_def split: sum.splits)
  from page_after_signal[OF assms(2,3) d] show ?thesis
    by (simp add: C')
qed

section \<open>Failure of a catalog request\<close>

text \<open>
  \<^bold>\<open>C8.\<close>  When one of the two requests fails, the loader returns the empty catalog,
  and what it wrote to the console ends with the failure, whose reason is the reason of
  a failed request; nothing is thrown.  The loading effect, started with an empty cache,
  then leaves the dialog with an empty list of lectures and an empty cache.
\<close>

theorem failed_fetch_gives_empty_catalog_and_is_logged:
  assumes "isl fetchMajors \<or> isl fetchLiberalArts"
  shows "snd (fetchAllLectures startTime endTime majors_first fetchMajors fetchLiberalArts) = []
         \<and> (\<exists>e. fst (fetchAllLectures startTime endTime majors_first fetchMajors fetchLiberalArts)
                  = [ApiStart startTime, LoadFailed e]
                \<and> (fetchMajors = Inl e \<or> fetchLiberalArts = Inl e))
         \<and> (lecturesCache s = [] \<longrightarrow>
              lectures (snd (load_effect startTime endTime majors_first fetchMajors
                               fetchLiberalArts s)) = []
              \<and> lecturesCache (snd (load_effect startTime endTime majors_first fetchMajors
                               fetchLiberalArts s)) = [])"
proof -
  obtain e where e: "Promise_all majors_first fetchMajors fetchLiberalArts = Inl e"
      "fetchMajors = Inl e \<or> fetchLiberalArts = Inl e"
    using assms by (cases fetchMajors; cases fetchLiberalArts) auto
  then show ?thesis
    by (auto simp: fetchAllLectures_def load_effect_def)
qed

theorem failed_fetch_gives_empty_catalog_and_is_logged_witness:
  "(isl (Inr [cs101, ge200] :: string + lecture list)
      \<or> isl (Inl ''timeout'' :: string + lecture list))
   \<and> lecturesCache initial_dialog = []
   \<and> snd (fetchAllLectures 0 5 True (Inr [cs101, ge200]) (Inl ''timeout'')) = []
   \<and> fst (fetchAllLectures 0 5 True (Inr [cs101, ge200]) (Inl ''timeout''))
       = [ApiStart 0, LoadFailed ''timeout'']
   \<and> lectures (snd (load_effect 0 5 True (Inr [cs101, ge200]) (Inl ''timeout'')
                       initial_dialog)) = []"
proof -
  have h: "isl (Inr [cs101, ge200] :: string + lecture list)
             \<or> isl (Inl ''timeout'' :: string + lecture list)"
    by simp
  have c: "lecturesCache initial_dialog = []" by (simp add: initial_dialog_def)
  from failed_fetch_gives_empty_catalog_and_is_logged
         [OF h, of 0 5 True initial_dialog] h c
  show ?thesis by auto
qed

section \<open>Properties of the schedule exporter\<close>

text \<open>
  \<^bold>\<open>C10.\<close>  When the store has a list for the table, \<open>addSchedule\<close> replaces it by
  that list followed by the parsed slots of the lecture, each tagged with the lecture,
  and calls \<^verbatim>\<open>onClose\<close>; whenever it succeeds, the list of every other table is what it
  was.  When the store has no list for the table, it fails with a \<^verbatim>\<open>TypeError\<close> and
  creates no entry.
\<close>

theorem addSchedule_appends_or_fails:
  "(prev (tableId info) = Some existing \<longrightarrow>
      addSchedule parseSchedule (Some info) l prev =
        Inr (prev(tableId info \<mapsto>
               existing @ map (\<lambda>s. slot.extend s \<lparr>owner = l\<rparr>) (parseSchedule (schedule l))),
             True))
   \<and> (\<forall>store' called t.
         addSchedule parseSchedule (Some info) l prev = Inr (store', called) \<longrightarrow>
         t \<noteq> tableId info \<longrightarrow> store' t = prev t)
   \<and> (prev (tableId info) = None \<longrightarrow>
        addSchedule parseSchedule (Some info) l prev = Inl TypeError)"
  by (auto simp: addSchedule_def split: option.splits)

theorem addSchedule_appends_or_fails_witness:
  "store_with_t1 (tableId table1) = Some []
   \<and> (case addSchedule example_parser (Some table1) cs101 store_with_t1 of
         Inl e \<Rightarrow> False
       | Inr (store', called) \<Rightarrow>
           called \<and> store' ''t1'' = Some [\<lparr>day = ''Mon'', slot_range = [1, 2], owner = cs101\<rparr>])
   \<and> store_without_t1 (tableId table1) = None
   \<and> addSchedule example_parser (Some table1) cs101 store_without_t1 = Inl TypeError"
proof -
  have a: "store_with_t1 (tableId table1) = Some []"
    by (simp add: table1_def store_with_t1_def)
  have b: "store_without_t1 (tableId table1) = None"
    by (simp add: table1_def store_without_t1_def)
  have p: "map (\<lambda>s. slot.extend s \<lparr>owner = cs101\<rparr>) (example_parser (schedule cs101))
             = [\<lparr>day = ''Mon'', slot_range = [1, 2], owner = cs101\<rparr>]"
    by (simp add: example_parser_def slot.extend_def cs101_def)
  have t: "tableId table1 = ''t1''"
    by (simp add: table1_def)
  from addSchedule_appends_or_fails[of store_with_t1 table1 "[]" example_parser cs101] a
  have "addSchedule example_parser (Some table1) cs101 store_with_t1 =
        Inr (store_with_t1(tableId table1 \<mapsto>
               [] @ map (\<lambda>s. slot.extend s \<lparr>owner = cs101\<rparr>) (example_parser (schedule cs101))),
             True)"
    by blast
  then have ok: "case addSchedule example_parser (Some table1) cs101 store_with_t1 of
         Inl e \<Rightarrow> False
       | Inr (store', called) \<Rightarrow>
           called \<and> store' ''t1'' = Some [\<lparr>day = ''Mon'', slot_range = [1, 2], owner = cs101\<rparr>]"
    by (simp only: p t sum.case prod.case fun_upd_same append_Nil simp_thms)
  from addSchedule_appends_or_fails[of store_without_t1 table1 "[]" example_parser cs101] b
  have bad: "addSchedule example_parser (Some table1) cs101 store_without_t1 = Inl TypeError"
    by blast
  from a ok b bad show ?thesis by (intro conjI)
qed

section \<open>Properties of the debounced update\<close>

lemma tidy_cases:
  assumes "tidy S"
  obtains "armed (loop S) = []"
  | h due c where "armed (loop S) = [(h, due, c)]" "timeout_var S = Some h" "now (loop S) < due"
  using assms unfolding tidy_def
  by (auto split: list.splits)

text \<open>A call cancels the timer that is armed, if any, and arms one for its own arguments.\<close>

lemma update_arms_one:
  assumes "tidy S"
  shows "debouncedChangeSearchOption c S =
           S\<lparr>timeout_var := Some (fresh (loop S)),
             loop := (loop S)\<lparr>fresh := fresh (loop S) + 1,
                               armed := [(fresh (loop S), now (loop S) + 300, c)]\<rparr>\<rparr>"
  using assms
  by (cases rule: tidy_cases)
     (simp_all add: debouncedChangeSearchOption_def debounced_def clearTimeout_def setTimeout_def)

lemma update_poised:
  assumes "tidy S"
  shows "poised (step S (Update c)) c \<and> committed (step S (Update c)) = committed S
         \<and> dialog_of (step S (Update c)) = dialog_of S"
  by (simp add: update_arms_one[OF assms] poised_def)

lemma poised_tidy: "poised S c \<Longrightarrow> tidy S"
  by (auto simp: poised_def tidy_def split: option.splits)

lemma poised_armed:
  "poised S c \<Longrightarrow> map (\<lambda>(h, due, c'). c') (armed (loop S)) = [c]"
  by (auto simp: poised_def split: option.splits)

lemma elapse_idle:
  assumes "armed (loop S) = []"
  shows "elapse d S = S\<lparr>loop := (loop S)\<lparr>now := now (loop S) + d\<rparr>\<rparr>"
  using assms by (simp add: elapse_def)

lemma elapse_quiet:
  assumes "armed (loop S) = [(h, due, c)]" and "now (loop S) + d < due"
  shows "elapse d S = S\<lparr>loop := (loop S)\<lparr>now := now (loop S) + d\<rparr>\<rparr>"
  using assms by (simp add: elapse_def)

lemma elapse_fire:
  assumes "armed (loop S) = [(h, due, c)]" and "due \<le> now (loop S) + d"
  shows "elapse d S =
           S\<lparr>loop := (loop S)\<lparr>now := now (loop S) + d, armed := []\<rparr>,
             dialog_of := changeSearchOption c (dialog_of S),
             committed := committed S @ [c]\<rparr>"
  using assms by (simp add: elapse_def fire_def clearTimeout_def)

text \<open>A call that comes less than 300 ms after the call before it replaces its timer.\<close>

lemma quiet_then_update:
  assumes "poised S c" and "d < 300"
  shows "poised (step (step S (Elapse d)) (Update c')) c'
         \<and> committed (step (step S (Elapse d)) (Update c')) = committed S
         \<and> dialog_of (step (step S (Elapse d)) (Update c')) = dialog_of S"
proof -
  from assms(1) obtain h where a: "armed (loop S) = [(h, now (loop S) + 300, c)]"
      and t: "timeout_var S = Some h"
    by (auto simp: poised_def split: option.splits)
  from assms(2) have q: "now (loop S) + d < now (loop S) + 300" by simp
  have e: "elapse d S = S\<lparr>loop := (loop S)\<lparr>now := now (loop S) + d\<rparr>\<rparr>"
    using elapse_quiet[OF a q] by simp
  have "tidy (step S (Elapse d))"
    using a t assms(2) by (simp add: e tidy_def)
  from update_poised[OF this, of c'] show ?thesis
    by (simp add: e)
qed

lemma run_append: "run S (xs @ ys) = run (run S xs) ys"
  by (simp add: run_def)

lemma run_Cons: "run S (x # xs) = run (step S x) xs"
  by (simp add: run_def)

lemma run_Nil: "run S [] = S"
  by (simp add: run_def)

lemma burst_tail_poised:
  assumes "poised S c" and "\<forall>(d, c')\<in>set rest. d < 300"
  shows "poised (run S (concat (map (\<lambda>(d, c'). [Elapse d, Update c']) rest)))
           (last (c # map snd rest))
         \<and> committed (run S (concat (map (\<lambda>(d, c'). [Elapse d, Update c']) rest))) = committed S
         \<and> dialog_of (run S (concat (map (\<lambda>(d, c'). [Elapse d, Update c']) rest))) = dialog_of S"
  using assms
proof (induction rest arbitrary: S c)
  case Nil
  then show ?case by (simp add: run_Nil)
next
  case (Cons p rest)
  obtain d c' where p: "p = (d, c')" by (cases p)
  with Cons.prems have d: "d < 300" and r: "\<forall>(d, c')\<in>set rest. d < 300" by auto
  let ?S1 = "step (step S (Elapse d)) (Update c')"
  from quiet_then_update[OF Cons.prems(1) d, of c']
  have s1: "poised ?S1 c'" "committed ?S1 = committed S" "dialog_of ?S1 = dialog_of S"
    by simp_all
  from Cons.IH[OF s1(1) r] s1(2,3) show ?case
    by (simp add: p run_Cons)
qed

lemma poised_fires:
  assumes "poised S c" and "300 \<le> w"
  shows "committed (step S (Elapse w)) = committed S @ [c]
         \<and> dialog_of (step S (Elapse w)) = changeSearchOption c (dialog_of S)
         \<and> armed (loop (step S (Elapse w))) = []"
proof -
  from assms(1) obtain h where a: "armed (loop S) = [(h, now (loop S) + 300, c)]"
    by (auto simp: poised_def split: option.splits)
  from assms(2) have "now (loop S) + 300 \<le> now (loop S) + w" by simp
  from elapse_fire[OF a this] show ?thesis by simp
qed

lemma run_idle:
  assumes "armed (loop S) = []"
  shows "committed (run S (map Elapse ws)) = committed S
         \<and> dialog_of (run S (map Elapse ws)) = dialog_of S"
  using assms
proof (induction ws arbitrary: S)
  case Nil
  then show ?case by (simp add: run_Nil)
next
  case (Cons w ws)
  have e: "elapse w S = S\<lparr>loop := (loop S)\<lparr>now := now (loop S) + w\<rparr>\<rparr>"
    using elapse_idle[OF Cons.prems] by simp
  have "armed (loop (step S (Elapse w))) = []"
    using Cons.prems by (simp add: e)
  from Cons.IH[OF this] show ?case
    by (simp add: run_Cons e)
qed

lemma run_waiting:
  assumes "armed (loop S) = [(h, due, c)]" and "now (loop S) < due"
  shows "committed (run S (map Elapse ws))
           = committed S @ (if due \<le> now (loop S) + sum_list ws then [c] else [])
         \<and> dialog_of (run S (map Elapse ws))
           = (if due \<le> now (loop S) + sum_list ws then changeSearchOption c (dialog_of S)
              else dialog_of S)"
  using assms
proof (induction ws arbitrary: S)
  case Nil
  then show ?case by (simp add: run_Nil)
next
  case (Cons w ws)
  let ?S1 = "step S (Elapse w)"
  show ?case
  proof (cases "due \<le> now (loop S) + w")
    case True
    have e: "elapse w S = S\<lparr>loop := (loop S)\<lparr>now := now (loop S) + w, armed := []\<rparr>,
             dialog_of := changeSearchOption c (dialog_of S),
             committed := committed S @ [c]\<rparr>"
      using elapse_fire[OF Cons.prems(1) True] by simp
    have "armed (loop ?S1) = []" by (simp add: e)
    from run_idle[OF this, of ws] True show ?thesis
      by (simp add: run_Cons e)
  next
    case False
    then have q: "now (loop S) + w < due" by simp
    have e: "elapse w S = S\<lparr>loop := (loop S)\<lparr>now := now (loop S) + w\<rparr>\<rparr>"
      using elapse_quiet[OF Cons.prems(1) q] by simp
    have a: "armed (loop ?S1) = [(h, due, c)]" and n: "now (loop ?S1) < due"
      using Cons.prems(1) q by (simp_all add: e)
    from Cons.IH[OF a n] show ?thesis
      by (simp add: run_Cons e add.assoc)
  qed
qed

lemma set_field_other:
  "field_of c \<noteq> k \<Longrightarrow> get_field k (set_field so c) = get_field k so"
  by (cases c; cases k) simp_all

text \<open>The invariant holds initially and after every event.\<close>

lemma tidy_initial: "tidy (initial_system t0)"
  by (simp add: tidy_def initial_system_def)

lemma tidy_step: "tidy S \<Longrightarrow> tidy (step S ev)"
proof (cases ev)
  case (Update c)
  assume "tidy S"
  from update_poised[OF this, of c] show ?thesis
    unfolding Update by (auto dest: poised_tidy)
next
  case (Elapse d)
  assume t: "tidy S"
  then show ?thesis
  proof (cases rule: tidy_cases)
    case 1
    then show ?thesis using elapse_idle[OF 1, of d] by (simp add: Elapse tidy_def)
  next
    case (2 h due c)
    show ?thesis
    proof (cases "due \<le> now (loop S) + d")
      case True
      from elapse_fire[OF 2(1) True] show ?thesis by (simp add: Elapse tidy_def)
    next
      case False
      then have "now (loop S) + d < due" by simp
      from elapse_quiet[OF 2(1) this] 2 this show ?thesis by (simp add: Elapse tidy_def)
    qed
  qed
qed

lemma tidy_run: "tidy S \<Longrightarrow> tidy (run S evs)"
  by (induction evs arbitrary: S) (simp_all add: run_Nil run_Cons tidy_step)

text \<open>
  \<^bold>\<open>C4.\<close>  Take one call or more of the debounced update, each less than 300 ms after
  the one before it, and then at least 300 ms without a call.  During the calls nothing
  is committed and the dialog is as it was; when they are over, the one armed timer
  carries the arguments of the last call; after the quiet period exactly one commit has
  been added, that of the last call, the search options hold its value, the page is 1,
  and no timer is left.
\<close>

theorem burst_commits_once_with_last_call:
  assumes "tidy S" and "\<forall>(d, c')\<in>set rest. d < 300" and "300 \<le> w"
  shows "committed (run S (burst c rest @ [Elapse w])) = committed S @ [last (c # map snd rest)]
         \<and> searchOptions (dialog_of (run S (burst c rest @ [Elapse w])))
             = set_field (searchOptions (dialog_of S)) (last (c # map snd rest))
         \<and> page (dialog_of (run S (burst c rest @ [Elapse w]))) = 1
         \<and> armed (loop (run S (burst c rest @ [Elapse w]))) = []
         \<and> committed (run S (burst c rest)) = committed S
         \<and> dialog_of (run S (burst c rest)) = dialog_of S
         \<and> map (\<lambda>(h, due, c'). c') (armed (loop (run S (burst c rest))))
             = [last (c # map snd rest)]"
proof -
  let ?S1 = "step S (Update c)"
  let ?S2 = "run S (burst c rest)"
  from update_poised[OF assms(1), of c]
  have s1: "poised ?S1 c" "committed ?S1 = committed S" "dialog_of ?S1 = dialog_of S"
    by simp_all
  have s2eq: "?S2 = run ?S1 (concat (map (\<lambda>(d, c'). [Elapse d, Update c']) rest))"
    by (simp add: burst_def run_Cons)
  from burst_tail_poised[OF s1(1) assms(2)] s1(2,3)
  have s2: "poised ?S2 (last (c # map snd rest))" "committed ?S2 = committed S"
      "dialog_of ?S2 = dialog_of S"
    unfolding s2eq by simp_all
  have fin: "run S (burst c rest @ [Elapse w]) = step ?S2 (Elapse w)"
    by (simp add: run_append run_Cons run_Nil)
  from poised_fires[OF s2(1) assms(3)] s2(2,3) poised_armed[OF s2(1)] show ?thesis
    unfolding fin by (simp add: changeSearchOption_def)
qed

theorem burst_commits_once_with_last_call_witness:
  "tidy (initial_system 0)
   \<and> (100::nat) < 300 \<and> (150::nat) < 300
   \<and> (300::nat) \<le> 300
   \<and> committed (run (initial_system 0)
        (burst (Query (Some ''a'')) [(100, Query (Some ''ab'')), (150, Query (Some ''abc''))]
           @ [Elapse 300])) = [Query (Some ''abc'')]
   \<and> query (searchOptions (dialog_of (run (initial_system 0)
        (burst (Query (Some ''a'')) [(100, Query (Some ''ab'')), (150, Query (Some ''abc''))]
           @ [Elapse 300])))) = Some ''abc''"
proof -
  let ?rest = "[(100, Query (Some ''ab'')), (150, Query (Some ''abc''))] :: (nat \<times> change) list"
  let ?end = "run (initial_system 0) (burst (Query (Some ''a'')) ?rest @ [Elapse 300])"
  have t: "tidy (initial_system 0)" by (rule tidy_initial)
  have g: "\<forall>(d, c')\<in>set ?rest. d < 300"
    by simp
  have w: "(300::nat) \<le> 300" by simp
  have l: "last (Query (Some ''a'') # map snd ?rest) = Query (Some ''abc'')"
    by simp
  from burst_commits_once_with_last_call[OF t g w, of "Query (Some ''a'')"]
  have c: "committed ?end = committed (initial_system 0) @ [Query (Some ''abc'')]"
    and o: "searchOptions (dialog_of ?end)
              = set_field (searchOptions (dialog_of (initial_system 0))) (Query (Some ''abc''))"
    unfolding l by blast+
  from c have c': "committed ?end = [Query (Some ''abc'')]"
    by (simp add: initial_system_def)
  from o have o': "query (searchOptions (dialog_of ?end)) = Some ''abc''"
    by simp
  have g1: "(100::nat) < 300" and g2: "(150::nat) < 300" by simp_all
  from t g1 g2 w c' o' show ?thesis by (intro conjI)
qed

text \<open>
  \<^bold>\<open>C9.\<close>  The timer is shared by all keys.  After a call for one key and, less than
  300 ms later, a call for another key, whatever time passes without a further call:
  the only commit that can be added is that of the second call, the search options
  change by the value of the second call only, and the value of the first key stays
  what it was before the two calls.
\<close>

theorem shared_timer_drops_pending_change_of_other_field:
  assumes "tidy S" and "d < 300" and "field_of c1 \<noteq> field_of c2"
  shows "committed (run S ([Update c1, Elapse d, Update c2] @ map Elapse ws))
           = committed S @ (if 300 \<le> sum_list ws then [c2] else [])
         \<and> searchOptions (dialog_of (run S ([Update c1, Elapse d, Update c2] @ map Elapse ws)))
           = (if 300 \<le> sum_list ws then set_field (searchOptions (dialog_of S)) c2
              else searchOptions (dialog_of S))
         \<and> get_field (field_of c1)
             (searchOptions (dialog_of (run S ([Update c1, Elapse d, Update c2] @ map Elapse ws))))
           = get_field (field_of c1) (searchOptions (dialog_of S))"
proof -
  let ?S1 = "step S (Update c1)"
  let ?S2 = "step (step ?S1 (Elapse d)) (Update c2)"
  from update_poised[OF assms(1), of c1]
  have s1: "poised ?S1 c1" "committed ?S1 = committed S" "dialog_of ?S1 = dialog_of S"
    by simp_all
  from quiet_then_update[OF s1(1) assms(2), of c2] s1(2,3)
  have s2: "poised ?S2 c2" "committed ?S2 = committed S" "dialog_of ?S2 = dialog_of S"
    by simp_all
  from s2(1) obtain h where a: "armed (loop ?S2) = [(h, now (loop ?S2) + 300, c2)]"
    by (auto simp: poised_def split: option.splits)
  have n: "now (loop ?S2) < now (loop ?S2) + 300" by simp
  have r: "run S ([Update c1, Elapse d, Update c2] @ map Elapse ws) = run ?S2 (map Elapse ws)"
    by (simp add: run_Cons)
  from run_waiting[OF a n, of ws] s2(2,3) assms(3) show ?thesis
    unfolding r by (simp add: changeSearchOption_def set_field_other)
qed

theorem shared_timer_drops_pending_change_of_other_field_witness:
  "tidy (initial_system 0) \<and> (100::nat) < 300
   \<and> field_of (Query (Some ''db'')) \<noteq> field_of (Grades [2])
   \<and> committed (run (initial_system 0)
        ([Update (Query (Some ''db'')), Elapse 100, Update (Grades [2])] @ map Elapse [200, 100]))
       = [Grades [2]]
   \<and> get_field F_query (searchOptions (dialog_of (run (initial_system 0)
        ([Update (Query (Some ''db'')), Elapse 100, Update (Grades [2])] @ map Elapse [200, 100]))))
       = Query (Some [])"
proof -
  have t: "tidy (initial_system 0)" by (rule tidy_initial)
  have d: "(100::nat) < 300" by simp
  have f: "field_of (Query (Some ''db'')) \<noteq> field_of (Grades [2])" by simp
  from shared_timer_drops_pending_change_of_other_field[OF t d f, of "[200, 100]"]
  have "committed (run (initial_system 0)
        ([Update (Query (Some ''db'')), Elapse 100, Update (Grades [2])] @ map Elapse [200, 100]))
       = [Grades [2]]
     \<and> get_field F_query (searchOptions (dialog_of (run (initial_system 0)
        ([Update (Query (Some ''db'')), Elapse 100, Update (Grades [2])] @ map Elapse [200, 100]))))
       = Query (Some [])"
    by (simp add: initial_system_def initial_dialog_def initial_options_def)
  with t d f show ?thesis by blast
qed

end
